theory Spec2Isabelle
  imports Complex_Main "HOL-Library.AList" "HOL-Library.Multiset"
begin

section \<open>The parking-lot ticket ledger of \<^verbatim>\<open>tugas 2/app.py\<close>\<close>

text \<open>
  The module keeps three globals (\<^verbatim>\<open>active_tickets\<close>, \<^verbatim>\<open>occupied_slots_count\<close>,
  \<^verbatim>\<open>next_ticket_number\<close>) and mutates them inside request handlers. Here the globals
  are one record that every handler takes and returns. Modelling decisions:
  \<^item> a \<^verbatim>\<open>datetime\<close> is an integer number of microseconds (the resolution of Python's
    \<^verbatim>\<open>datetime\<close>) on one fixed time line; the clock read by \<^verbatim>\<open>get_current_time()\<close> is
    an argument of the handler;
  \<^item> \<^verbatim>\<open>timedelta.total_seconds()\<close> and the division by 3600 yield IEEE doubles: each is
    the exact quotient rounded to the nearest binary64 number, ties to even
    (\<open>double\<close>). A \<^verbatim>\<open>datetime\<close> lies between the years 1 and 9999, so an elapsed time
    is below \<open>2 ^ 59\<close> microseconds and every value lies in the normal range of the
    format, far from overflow and underflow;
  \<^item> a Python \<^verbatim>\<open>dict\<close> is an association list in insertion order: \<open>map_of\<close> is
    \<^verbatim>\<open>get\<close>, \<open>AList.update\<close> is item assignment (in place for a known key, at the end
    for a new one), \<open>AList.delete\<close> is \<^verbatim>\<open>del\<close>;
  \<^item> a string is a list of characters with code points below 256. The methods
    \<^verbatim>\<open>str.strip\<close> and \<^verbatim>\<open>str.upper\<close> belong to the language's library, not to the module:
    every handler that calls them takes them as a parameter (\<open>py_str\<close>), and the
    theorems hold for whatever the two methods do. The examples run with \<open>latin1\<close>,
    which follows Python on code points below 256 (two letters apart, see there);
  \<^item> a JSON body is an association list of string fields, \<open>None\<close> when there is none.
\<close>

subsection \<open>Configuration\<close>

definition TOTAL_SLOTS :: int where
  "TOTAL_SLOTS = 5"

definition HOURLY_RATE :: int where
  "HOURLY_RATE = 3000"

subsection \<open>State\<close>

type_synonym datetime = int

record ticket =
  ticket_id :: string
  plate_number :: string
  entry_time :: datetime
  slot_number :: int

record ledger =
  active_tickets :: "(string \<times> ticket) list"
  occupied_slots_count :: int
  next_ticket_number :: int

text \<open>The values of the globals when the module has been loaded.\<close>

definition initial_ledger :: ledger where
  "initial_ledger = \<lparr>active_tickets = [], occupied_slots_count = 0, next_ticket_number = 1\<rparr>"

definition dict_values :: "('k \<times> 'v) list \<Rightarrow> 'v list" where
  "dict_values d = map snd d"

subsection \<open>Strings\<close>

text \<open>The two string methods the handlers call.\<close>

record py_str =
  strip :: "string \<Rightarrow> string"
  upper :: "string \<Rightarrow> string"

text \<open>
  What the two methods do on code points below 256. Python's white space there is 9 to
  13, 28 to 32, 133 and 160. \<^verbatim>\<open>upper\<close> maps a to z and the accented letters 224 to 254
  (but not the division sign, 247) to the code point 32 below, and the sharp s (223) to
  two capital letters S. The micro sign (181) and the y with diaeresis (255) have
  capitals beyond 255, which a character of this type cannot hold; they are left as they
  are, and no example contains them.
\<close>

definition latin1_space :: "char \<Rightarrow> bool" where
  "latin1_space c =
     (of_char c \<in> set [9, 10, 11, 12, 13, 28, 29, 30, 31, 32, 133, 160 :: nat])"

definition latin1_strip :: "string \<Rightarrow> string" where
  "latin1_strip s = rev (dropWhile latin1_space (rev (dropWhile latin1_space s)))"

definition latin1_upper_char :: "char \<Rightarrow> string" where
  "latin1_upper_char c =
     (let n = (of_char c :: nat)
      in if 97 \<le> n \<and> n \<le> 122 then [char_of (n - 32)]
         else if n = 223 then ''SS''
         else if 224 \<le> n \<and> n \<le> 254 \<and> n \<noteq> 247 then [char_of (n - 32)]
         else [c])"

definition latin1_upper :: "string \<Rightarrow> string" where
  "latin1_upper s = concat (map latin1_upper_char s)"

definition latin1 :: py_str where
  "latin1 = \<lparr>strip = latin1_strip, upper = latin1_upper\<rparr>"

text \<open>The format specification \<^verbatim>\<open>04d\<close>: decimal digits, zero-padded to width 4, the
  sign counted in the width.\<close>

definition digit_char :: "nat \<Rightarrow> char" where
  "digit_char d = char_of (48 + d)"

fun decimal :: "nat \<Rightarrow> string" where
  "decimal n = (if n < 10 then [digit_char n] else decimal (n div 10) @ [digit_char (n mod 10)])"

declare decimal.simps [simp del]

definition zfill :: "nat \<Rightarrow> string \<Rightarrow> string" where
  "zfill w ds = replicate (w - length ds) (CHR ''0'') @ ds"

definition format_04d :: "int \<Rightarrow> string" where
  "format_04d i =
     (if i < 0 then CHR ''-'' # zfill 3 (decimal (nat (- i))) else zfill 4 (decimal (nat i)))"

subsection \<open>Helpers\<close>

definition generate_ticket_id :: "ledger \<Rightarrow> string \<times> ledger" where
  "generate_ticket_id s =
     (CHR ''T'' # format_04d (next_ticket_number s),
      s\<lparr>next_ticket_number := next_ticket_number s + 1\<rparr>)"

definition used_slots :: "ledger \<Rightarrow> int set" where
  "used_slots s = set (map slot_number (dict_values (active_tickets s)))"

definition find_next_available_slot :: "ledger \<Rightarrow> int option" where
  "find_next_available_slot s = List.find (\<lambda>i. i \<notin> used_slots s) [1..TOTAL_SLOTS]"

text \<open>
  Binary64 arithmetic. A double is a rational number here. \<open>double q\<close> is the double
  nearest to \<open>q\<close>, the even one of two equally near: with \<open>2 ^ e \<le> \<bar>q\<bar> < 2 ^ (e + 1)\<close>
  the doubles around \<open>q\<close> are the multiples of \<open>2 ^ (e - 52)\<close>. Python's division of two
  integers and its division of two floats both return the correctly rounded quotient.
\<close>

definition round_half_even :: "rat \<Rightarrow> int" where
  "round_half_even q =
     (let f = \<lfloor>q\<rfloor>; r = q - of_int f
      in if r < 1 / 2 then f else if 1 / 2 < r then f + 1 else if even f then f else f + 1)"

definition pow2 :: "int \<Rightarrow> rat" where
  "pow2 e = (if 0 \<le> e then 2 ^ nat e else 1 / 2 ^ nat (- e))"

function bit_length :: "int \<Rightarrow> int" where
  "bit_length k = (if k \<le> 0 then 0 else 1 + bit_length (k div 2))"
  by pat_completeness auto
termination
  by (relation "measure nat") auto

declare bit_length.simps [simp del]

text \<open>For \<open>q > 0\<close>, the \<open>e\<close> with \<open>2 ^ e \<le> q < 2 ^ (e + 1)\<close>.\<close>

definition exponent :: "rat \<Rightarrow> int" where
  "exponent q =
     (case quotient_of q of (a, b) \<Rightarrow>
        let e = bit_length a - bit_length b
        in if pow2 e \<le> q then e else e - 1)"

definition double :: "rat \<Rightarrow> rat" where
  "double q =
     (if q = 0 then 0
      else let a = \<bar>q\<bar>; ulp = pow2 (exponent a - 52)
           in sgn q * of_int (round_half_even (a / ulp)) * ulp)"

definition total_seconds :: "int \<Rightarrow> rat" where
  "total_seconds duration = double (of_int duration / 1000000)"

definition calculate_cost :: "datetime \<Rightarrow> datetime \<Rightarrow> int \<times> int" where
  "calculate_cost entry exit =
     (let duration = exit - entry;
          secs = total_seconds duration;
          duration_hours = \<lceil>double (secs / 3600)\<rceil>;
          duration_hours = (if duration_hours < 1 then 1 else duration_hours);
          cost = duration_hours * HOURLY_RATE
      in (duration_hours, cost))"

subsection \<open>Initial data\<close>

definition initial_entries :: "(string \<times> datetime) list" where
  "initial_entries =
     [(''B1234AA'', 1760662800000000),
      (''D4567BB'', 1760667300000000),
      (''F7890CC'', 1760671800000000)]"

fun populate_entries :: "py_str \<Rightarrow> (string \<times> datetime) list \<Rightarrow> ledger \<Rightarrow> ledger" where
  "populate_entries P [] s = s"
| "populate_entries P ((plate, time) # rest) s =
     (case generate_ticket_id s of (tid, s1) \<Rightarrow>
        (case find_next_available_slot s1 of
           None \<Rightarrow> populate_entries P rest s1
         | Some slot \<Rightarrow>
             populate_entries P rest
               (s1\<lparr>active_tickets :=
                    AList.update tid
                      \<lparr>ticket_id = tid, plate_number = upper P plate,
                       entry_time = time, slot_number = slot\<rparr>
                      (active_tickets s1)\<rparr>)))"

definition populate_initial_data :: "py_str \<Rightarrow> ledger \<Rightarrow> ledger" where
  "populate_initial_data P s =
     (if active_tickets s \<noteq> [] then s
      else let s' = populate_entries P initial_entries s
           in s'\<lparr>occupied_slots_count := int (length (active_tickets s'))\<rparr>)"

subsection \<open>Handlers\<close>

text \<open>
  Each error is one of the handlers' JSON error replies; \<open>error_message\<close> and
  \<open>status_code\<close> give the reply itself. In the words of the specification,
  \<open>PlateNumberRequired\<close> and \<open>TicketIdRequired\<close> are validation errors,
  \<open>ParkingLotFull\<close> is the lot-full error, \<open>ParkingLotFullDesync\<close> its state-desync
  variant, and \<open>TicketNotFound\<close> the ticket-not-found error.
\<close>

datatype error =
  PlateNumberRequired | ParkingLotFull | ParkingLotFullDesync | TicketIdRequired | TicketNotFound

fun error_message :: "error \<Rightarrow> string" where
  "error_message PlateNumberRequired = ''plate_number is required''"
| "error_message ParkingLotFull = ''Parking lot is full''"
| "error_message ParkingLotFullDesync = ''Parking lot is full (state desync detected)''"
| "error_message TicketIdRequired = ''ticket_id is required''"
| "error_message TicketNotFound = ''Ticket not found''"

fun status_code :: "error \<Rightarrow> nat" where
  "status_code TicketNotFound = 404"
| "status_code _ = 400"

type_synonym json_body = "(string \<times> string) list option"

definition field :: "json_body \<Rightarrow> string \<Rightarrow> string option" where
  "field data k = (case data of None \<Rightarrow> None | Some d \<Rightarrow> map_of d k)"

record slot_status =
  total_slots :: int
  occupied_slots :: int
  available_slots :: int

definition get_available_slots :: "ledger \<Rightarrow> slot_status" where
  "get_available_slots s =
     (let available = TOTAL_SLOTS - occupied_slots_count s
      in \<lparr>total_slots = TOTAL_SLOTS, occupied_slots = occupied_slots_count s,
          available_slots = (if available \<ge> 0 then available else 0)\<rparr>)"

text \<open>The reply to a check-in carries the fields of the new ticket and the free count.\<close>

record entry_reply =
  new_ticket :: ticket
  available_slots_now :: int

definition create_entry ::
    "py_str \<Rightarrow> json_body \<Rightarrow> datetime \<Rightarrow> ledger \<Rightarrow> (error + entry_reply) \<times> ledger" where
  "create_entry P data now s =
     (case field data ''plate_number'' of
        None \<Rightarrow> (Inl PlateNumberRequired, s)
      | Some raw \<Rightarrow>
          if strip P raw = [] then (Inl PlateNumberRequired, s)
          else
            let plate = upper P (strip P raw) in
            if occupied_slots_count s \<ge> TOTAL_SLOTS then (Inl ParkingLotFull, s)
            else
              (case find_next_available_slot s of
                 None \<Rightarrow>
                   (Inl ParkingLotFullDesync,
                    s\<lparr>occupied_slots_count := int (length (active_tickets s))\<rparr>)
               | Some slot \<Rightarrow>
                   (case generate_ticket_id s of (tid, s1) \<Rightarrow>
                      let t = \<lparr>ticket_id = tid, plate_number = plate,
                               entry_time = now, slot_number = slot\<rparr>;
                          s2 = s1\<lparr>active_tickets := AList.update tid t (active_tickets s1)\<rparr>;
                          s3 = s2\<lparr>occupied_slots_count := occupied_slots_count s2 + 1\<rparr>
                      in (Inr \<lparr>new_ticket = t,
                               available_slots_now = TOTAL_SLOTS - occupied_slots_count s3\<rparr>,
                          s3))))"

text \<open>The reply to a check-out: the ticket that was removed (the JSON shows its id, plate
  and entry time), the billed hours, the cost and the exit time.\<close>

record exit_reply =
  old_ticket :: ticket
  duration_hours :: int
  cost :: int
  exit_time :: datetime

definition create_exit ::
    "py_str \<Rightarrow> json_body \<Rightarrow> datetime \<Rightarrow> ledger \<Rightarrow> (error + exit_reply) \<times> ledger" where
  "create_exit P data now s =
     (case field data ''ticket_id'' of
        None \<Rightarrow> (Inl TicketIdRequired, s)
      | Some raw \<Rightarrow>
          let tid = upper P (strip P raw) in
          (case map_of (active_tickets s) tid of
             None \<Rightarrow> (Inl TicketNotFound, s)
           | Some t \<Rightarrow>
               (case calculate_cost (entry_time t) now of (hours, c) \<Rightarrow>
                  let s1 = s\<lparr>active_tickets := AList.delete tid (active_tickets s)\<rparr>;
                      s2 = (if occupied_slots_count s1 > 0
                            then s1\<lparr>occupied_slots_count := occupied_slots_count s1 - 1\<rparr>
                            else s1)
                  in (Inr \<lparr>old_ticket = t, duration_hours = hours, cost = c, exit_time = now\<rparr>,
                      s2))))"

text \<open>One row of the listing. \<open>fmt\<close> stands for \<^verbatim>\<open>format_datetime_str\<close> (the library's
  \<^verbatim>\<open>strftime\<close>), which no property below depends on.\<close>

record ticket_data =
  td_ticket_id :: string
  td_plate_number :: string
  td_slot_number :: int
  entry_time_str :: string
  current_duration_hours :: int
  current_cost :: int

definition ticket_row :: "(datetime \<Rightarrow> string) \<Rightarrow> datetime \<Rightarrow> ticket \<Rightarrow> ticket_data" where
  "ticket_row fmt now t =
     (case calculate_cost (entry_time t) now of (hours, c) \<Rightarrow>
        \<lparr>td_ticket_id = ticket_id t, td_plate_number = plate_number t,
         td_slot_number = slot_number t, entry_time_str = fmt (entry_time t),
         current_duration_hours = hours, current_cost = c\<rparr>)"

definition get_all_tickets ::
    "(datetime \<Rightarrow> string) \<Rightarrow> datetime \<Rightarrow> ledger \<Rightarrow> ticket_data list \<times> ledger" where
  "get_all_tickets fmt now s =
     (let current_tickets = dict_values (active_tickets s);
          tickets_list = map (ticket_row fmt now) current_tickets
      in (sort_key td_slot_number tickets_list, s))"

definition webhook_slot_minus :: "ledger \<Rightarrow> int \<times> ledger" where
  "webhook_slot_minus s =
     (let s' = (if occupied_slots_count s > 0
                then s\<lparr>occupied_slots_count := occupied_slots_count s - 1\<rparr> else s)
      in (occupied_slots_count s', s'))"

definition webhook_slot_plus :: "ledger \<Rightarrow> int \<times> ledger" where
  "webhook_slot_plus s =
     (let s' = (if occupied_slots_count s < TOTAL_SLOTS
                then s\<lparr>occupied_slots_count := occupied_slots_count s + 1\<rparr> else s)
      in (occupied_slots_count s', s'))"

subsection \<open>Sequences of requests\<close>

text \<open>One constructor for each route of the service that touches the ledger, with the
  request body and the clock reading where the handler uses them. \<open>handle\<close> keeps the
  ledger a handler leaves behind; the date format given to the listing is immaterial,
  since the listing returns the ledger it was given.\<close>

datatype request =
  Available
| Entry json_body datetime
| Exit json_body datetime
| Tickets datetime
| SlotMinus
| SlotPlus

definition handle :: "py_str \<Rightarrow> request \<Rightarrow> ledger \<Rightarrow> ledger" where
  "handle P r s =
     (case r of
        Available \<Rightarrow> s
      | Entry data now \<Rightarrow> snd (create_entry P data now s)
      | Exit data now \<Rightarrow> snd (create_exit P data now s)
      | Tickets now \<Rightarrow> snd (get_all_tickets (\<lambda>_. []) now s)
      | SlotMinus \<Rightarrow> snd (webhook_slot_minus s)
      | SlotPlus \<Rightarrow> snd (webhook_slot_plus s))"

fun run :: "py_str \<Rightarrow> request list \<Rightarrow> ledger \<Rightarrow> ledger" where
  "run P [] s = s"
| "run P (r # rs) s = run P rs (handle P r s)"

text \<open>The trace of a sequence of check-ins: each reply with the ledger after it.\<close>

fun check_ins ::
    "py_str \<Rightarrow> (json_body \<times> datetime) list \<Rightarrow> ledger \<Rightarrow> ((error + entry_reply) \<times> ledger) list" where
  "check_ins P [] s = []"
| "check_ins P ((data, now) # rest) s =
     (case create_entry P data now s of (r, s') \<Rightarrow> (r, s') # check_ins P rest s')"

text \<open>The ticket ids handed out while a sequence of requests runs, in order.\<close>

fun issued :: "py_str \<Rightarrow> request list \<Rightarrow> ledger \<Rightarrow> string list" where
  "issued P [] s = []"
| "issued P (r # rs) s =
     (case r of
        Entry data now \<Rightarrow>
          (case fst (create_entry P data now s) of
             Inr reply \<Rightarrow> [ticket_id (new_ticket reply)]
           | Inl _ \<Rightarrow> [])
      | _ \<Rightarrow> []) @ issued P rs (handle P r s)"

subsection \<open>Invariants\<close>

definition counter_ok :: "ledger \<Rightarrow> bool" where
  "counter_ok s = (0 \<le> occupied_slots_count s \<and> occupied_slots_count s \<le> TOTAL_SLOTS)"

definition distinct_slots :: "ledger \<Rightarrow> bool" where
  "distinct_slots s = distinct (map slot_number (dict_values (active_tickets s)))"

definition slots_in_range :: "ledger \<Rightarrow> bool" where
  "slots_in_range s =
     list_all (\<lambda>t. 1 \<le> slot_number t \<and> slot_number t \<le> TOTAL_SLOTS)
       (dict_values (active_tickets s))"

text \<open>Reading a decimal numeral back, to show that formatting loses nothing.\<close>

definition digit_val :: "char \<Rightarrow> nat" where
  "digit_val c = of_char c - 48"

definition numeral_value :: "string \<Rightarrow> nat" where
  "numeral_value ds = foldl (\<lambda>a c. 10 * a + digit_val c) 0 ds"

subsection \<open>Example states\<close>

text \<open>Concrete ledgers, all reached from the loaded module by requests: the seeded lot
  (slots 1 to 3 taken), the lot after \<^verbatim>\<open>T0002\<close> has left, the full lot, and the full lot
  after one decrementing webhook call, whose counter says 4 while 5 tickets are active;
  and the seeded lot after two incrementing webhook calls, whose counter says 5 while 3
  tickets are active.\<close>

definition plate_body :: "string \<Rightarrow> json_body" where
  "plate_body p = Some [(''plate_number'', p)]"

definition ticket_body :: "string \<Rightarrow> json_body" where
  "ticket_body t = Some [(''ticket_id'', t)]"

definition seeded :: ledger where
  "seeded = populate_initial_data latin1 initial_ledger"

definition gap_lot :: ledger where
  "gap_lot = run latin1 [Exit (ticket_body '' t0002 '') 1760670000000000] seeded"

definition full_lot :: ledger where
  "full_lot =
     run latin1 [Entry (plate_body '' b 1111 xy'') 1760675000000000,
          Entry (plate_body ''E2222ZZ'') 1760676000000000] seeded"

definition desynced :: ledger where
  "desynced = run latin1 [SlotMinus] full_lot"

definition overcounted :: ledger where
  "overcounted = run latin1 [SlotPlus, SlotPlus] seeded"

text \<open>A sequence of requests that meets every handler and both ends of the counter, and
  three check-ins in a row.\<close>

definition busy_day :: "request list" where
  "busy_day =
     [SlotPlus, SlotPlus, SlotPlus,
      Entry (plate_body ''B 7 X'') 1760680000000000,
      Available,
      SlotMinus, SlotMinus, SlotMinus, SlotMinus, SlotMinus, SlotMinus,
      Exit (ticket_body ''t0001'') 1760681000000000,
      Tickets 1760682000000000,
      Entry (plate_body ''   '') 1760683000000000,
      Entry (plate_body ''B 8 Y'') 1760684000000000,
      Exit (ticket_body ''T0004'') 1760685000000000,
      Entry (plate_body ''B 9 Z'') 1760686000000000]"

definition three_arrivals :: "(json_body \<times> datetime) list" where
  "three_arrivals =
     [(plate_body ''B 7 X'', 1760680000000000),
      (plate_body ''B 8 Y'', 1760684000000000),
      (plate_body ''B 9 Z'', 1760686000000000)]"

text \<open>Check-ins that fail in each of the three ways, between check-ins that succeed.\<close>

definition failures_between :: "request list" where
  "failures_between =
     [Entry (plate_body '' '') 1760680000000000,
      Entry None 1760680100000000,
      Entry (plate_body [CHR 0xA0, CHR 0x85]) 1760680150000000,
      Entry (plate_body ''B 7 X'') 1760680200000000,
      SlotPlus,
      Entry (plate_body ''B 8 Y'') 1760680300000000,
      SlotMinus,
      Entry (plate_body ''B 8 Y'') 1760680400000000,
      SlotMinus,
      Entry (plate_body ''B 9 Z'') 1760680500000000,
      Exit (ticket_body ''T0001'') 1760680600000000,
      Entry (plate_body ''B 9 Z'') 1760680700000000]"

section \<open>Billing\<close>

subsection \<open>Minimum, cost and examples\<close>

lemma pow2_pos: "0 < pow2 e"
  by (simp add: pow2_def)

lemma round_half_even_nonneg: "0 \<le> q \<Longrightarrow> 0 \<le> round_half_even q"
  by (auto simp: round_half_even_def Let_def)

lemma double_nonpos: "q \<le> 0 \<Longrightarrow> double q \<le> 0"
proof -
  assume "q \<le> 0"
  have "0 \<le> of_int (round_half_even (\<bar>q\<bar> / pow2 (exponent \<bar>q\<bar> - 52))) * pow2 (exponent \<bar>q\<bar> - 52)"
    using pow2_pos [of "exponent \<bar>q\<bar> - 52"] round_half_even_nonneg [of "\<bar>q\<bar> / pow2 (exponent \<bar>q\<bar> - 52)"]
    by simp
  with \<open>q \<le> 0\<close> show ?thesis
    by (auto simp: double_def Let_def sgn_if mult_le_0_iff)
qed

lemma calculate_cost_nonpositive:
  assumes "exit \<le> entry"
  shows "calculate_cost entry exit = (1, HOURLY_RATE)"
proof -
  have "total_seconds (exit - entry) \<le> 0"
    unfolding total_seconds_def using assms by (intro double_nonpos) simp
  then have "double (total_seconds (exit - entry) / 3600) \<le> 0"
    by (intro double_nonpos) simp
  then have "\<lceil>double (total_seconds (exit - entry) / 3600)\<rceil> \<le> 0"
    by (simp add: ceiling_le_iff)
  then show ?thesis
    by (simp add: calculate_cost_def Let_def)
qed

lemma calculate_cost_shape:
  "1 \<le> fst (calculate_cost entry exit)
   \<and> snd (calculate_cost entry exit) = fst (calculate_cost entry exit) * HOURLY_RATE"
  by (simp add: calculate_cost_def Let_def)

lemma calculate_cost_shift:
  "calculate_cost entry (entry + d) = calculate_cost 0 d"
  by (simp add: calculate_cost_def)

lemma calculate_cost_examples:
  "calculate_cost entry (entry + 1000000) = (1, HOURLY_RATE)
   \<and> calculate_cost entry (entry + 3600000000) = (1, HOURLY_RATE)
   \<and> calculate_cost entry (entry + 3601000000) = (2, 2 * HOURLY_RATE)
   \<and> calculate_cost entry (entry + 3600000001) = (2, 2 * HOURLY_RATE)"
proof -
  have "calculate_cost 0 1000000 = (1, HOURLY_RATE)" by code_simp
  moreover have "calculate_cost 0 3600000000 = (1, HOURLY_RATE)" by code_simp
  moreover have "calculate_cost 0 3601000000 = (2, 2 * HOURLY_RATE)" by code_simp
  moreover have "calculate_cost 0 3600000001 = (2, 2 * HOURLY_RATE)" by code_simp
  ultimately show ?thesis
    by (simp only: calculate_cost_shift)
qed

subsection \<open>Rounding to a double\<close>

lemma pow2_powi: "pow2 e = 2 powi e"
  by (simp add: pow2_def power_int_def field_simps)

lemma pow2_add: "pow2 (a + b) = pow2 a * pow2 b"
  by (simp add: pow2_powi power_int_add)

lemma pow2_mono: "a \<le> b \<Longrightarrow> pow2 a \<le> pow2 b"
  by (simp add: pow2_powi power_int_increasing)

lemma pow2_strict_mono: "a < b \<Longrightarrow> pow2 a < pow2 b"
  by (simp add: pow2_powi power_int_strict_increasing)

lemma pow2_less_iff: "pow2 a < pow2 b \<longleftrightarrow> a < b"
  using pow2_strict_mono [of a b] pow2_mono [of b a] by (auto simp: not_le [symmetric])

lemma pow2_le_iff: "pow2 a \<le> pow2 b \<longleftrightarrow> a \<le> b"
  using pow2_strict_mono [of b a] pow2_mono [of a b] by (auto simp: not_less [symmetric])

lemma bit_length_bounds:
  "0 < k \<Longrightarrow> 1 \<le> bit_length k \<and> 2 ^ nat (bit_length k - 1) \<le> k \<and> k < 2 ^ nat (bit_length k)"
proof (induction k rule: bit_length.induct)
  case (1 k)
  show ?case
  proof (cases "k = 1")
    case True
    then show ?thesis
      by (simp add: bit_length.simps [of 1] bit_length.simps [of 0])
  next
    case False
    with 1 have pos: "0 < k div 2" by simp
    with 1 have IH: "1 \<le> bit_length (k div 2)"
        "2 ^ nat (bit_length (k div 2) - 1) \<le> k div 2"
        "k div 2 < 2 ^ nat (bit_length (k div 2))"
      by simp_all
    have bl: "bit_length k = 1 + bit_length (k div 2)"
      using 1 by (simp add: bit_length.simps [of k])
    have n: "nat (bit_length (k div 2)) = Suc (nat (bit_length (k div 2) - 1))"
      using IH(1) by simp
    have a: "2 ^ nat (bit_length k - 1) \<le> k"
    proof -
      have "(2::int) ^ nat (bit_length k - 1) = 2 * 2 ^ nat (bit_length (k div 2) - 1)"
        using bl n by simp
      also have "\<dots> \<le> 2 * (k div 2)" using IH(2) by simp
      also have "\<dots> \<le> k" by simp
      finally show ?thesis .
    qed
    have b: "k < 2 ^ nat (bit_length k)"
    proof -
      have "k div 2 + 1 \<le> 2 ^ nat (bit_length (k div 2))" using IH(3) by simp
      then have "2 * (k div 2) + 2 \<le> 2 * 2 ^ nat (bit_length (k div 2))" by simp
      moreover have "k < 2 * (k div 2) + 2" by presburger
      moreover have "(2::int) ^ nat (bit_length k) = 2 * 2 ^ nat (bit_length (k div 2))"
        using bl IH(1) by (simp add: nat_add_distrib)
      ultimately show ?thesis by linarith
    qed
    from a b bl IH(1) show ?thesis by simp
  qed
qed

lemma round_half_even_floor:
  "round_half_even q = \<lfloor>q\<rfloor> \<and> q - of_int \<lfloor>q\<rfloor> \<le> 1 / 2
   \<or> round_half_even q = \<lfloor>q\<rfloor> + 1 \<and> 1 / 2 \<le> q - of_int \<lfloor>q\<rfloor>"
  by (auto simp: round_half_even_def Let_def)

lemma round_half_even_ge: "of_int N \<le> q \<Longrightarrow> N \<le> round_half_even q"
proof -
  assume "of_int N \<le> q"
  then have "N \<le> \<lfloor>q\<rfloor>" by (simp add: le_floor_iff)
  with round_half_even_floor [of q] show ?thesis by linarith
qed

lemma round_half_even_le: "q \<le> of_int N \<Longrightarrow> round_half_even q \<le> N"
proof -
  assume le: "q \<le> of_int N"
  show ?thesis
  proof (cases "q = of_int N")
    case True
    then show ?thesis by (simp add: round_half_even_def)
  next
    case False
    with le have "q < of_int N" by simp
    then have "\<lfloor>q\<rfloor> < N" by (simp add: floor_less_iff)
    with round_half_even_floor [of q] show ?thesis by linarith
  qed
qed

lemma round_half_even_gt: "of_int N + 1 / 2 < q \<Longrightarrow> N + 1 \<le> round_half_even q"
proof -
  assume gt: "of_int N + 1 / 2 < q"
  then have "N \<le> \<lfloor>q\<rfloor>" by (simp add: le_floor_iff)
  show ?thesis
  proof (cases "\<lfloor>q\<rfloor> = N")
    case True
    with gt have "1 / 2 < q - of_int \<lfloor>q\<rfloor>" by simp
    with round_half_even_floor [of q] True show ?thesis by linarith
  next
    case False
    with \<open>N \<le> \<lfloor>q\<rfloor>\<close> have "N + 1 \<le> \<lfloor>q\<rfloor>" by simp
    with round_half_even_floor [of q] show ?thesis by linarith
  qed
qed

lemma pow2_diff: "pow2 (a - b) = pow2 a / pow2 b"
  using pow2_add [of "a - b" b] pow2_pos [of b] by (simp add: field_simps)

lemma pow2_nat: "0 \<le> e \<Longrightarrow> pow2 e = of_int (2 ^ nat e)"
  by (simp add: pow2_def)

lemma bit_length_pow2:
  assumes "0 < k"
  shows "pow2 (bit_length k - 1) \<le> of_int k \<and> of_int k < pow2 (bit_length k)"
proof -
  note B = bit_length_bounds [OF assms]
  have "pow2 (bit_length k - 1) = of_int (2 ^ nat (bit_length k - 1))"
    using B by (intro pow2_nat) simp
  moreover have "pow2 (bit_length k) = of_int (2 ^ nat (bit_length k))"
    using B by (intro pow2_nat) simp
  moreover have "(of_int (2 ^ nat (bit_length k - 1)) :: rat) \<le> of_int k"
    using B by (simp only: of_int_le_iff)
  moreover have "(of_int k :: rat) < of_int (2 ^ nat (bit_length k))"
    using B by (simp only: of_int_less_iff)
  ultimately show ?thesis by simp
qed

lemma exponent_bounds:
  assumes "0 < q"
  shows "pow2 (exponent q) \<le> q \<and> q < pow2 (exponent q + 1)"
proof -
  obtain a b where ab: "quotient_of q = (a, b)" by (cases "quotient_of q")
  then have b: "0 < b" and q: "q = of_int a / of_int b"
    using quotient_of_denom_pos [OF ab] quotient_of_div [OF ab] by simp_all
  with assms have a: "0 < a"
    by (simp add: zero_less_divide_iff)
  let ?la = "bit_length a" and ?lb = "bit_length b"
  note A = bit_length_pow2 [OF a] and B = bit_length_pow2 [OF b]
  have "of_int a / of_int b < pow2 ?la / pow2 (?lb - 1)"
    using A B a b pow2_pos [of "?lb - 1"] by (intro frac_less) simp_all
  then have up: "q < pow2 (?la - ?lb + 1)"
    using pow2_diff [of ?la "?lb - 1"] q by (simp add: algebra_simps)
  have "pow2 (?la - 1) / pow2 ?lb \<le> of_int a / of_int b"
    using A B a b pow2_pos [of "?la - 1"] by (intro frac_le) simp_all
  then have lo: "pow2 (?la - ?lb - 1) \<le> q"
    using pow2_diff [of "?la - 1" ?lb] q by (simp add: algebra_simps)
  show ?thesis
  proof (cases "pow2 (?la - ?lb) \<le> q")
    case True
    then have "exponent q = ?la - ?lb" by (simp add: exponent_def ab Let_def)
    with True up show ?thesis by simp
  next
    case False
    then have "exponent q = ?la - ?lb - 1" by (simp add: exponent_def ab Let_def)
    with False lo show ?thesis by simp
  qed
qed

lemma exponent_less: "0 < q \<Longrightarrow> q < pow2 n \<Longrightarrow> exponent q < n"
  using exponent_bounds [of q] pow2_less_iff [of "exponent q" n] by linarith

lemma exponent_ge: "0 < q \<Longrightarrow> pow2 n \<le> q \<Longrightarrow> n \<le> exponent q"
  using exponent_bounds [of q] pow2_less_iff [of n "exponent q + 1"] by linarith

lemma double_pos_eq:
  "0 < q \<Longrightarrow>
     double q = of_int (round_half_even (q / pow2 (exponent q - 52))) * pow2 (exponent q - 52)"
  by (simp add: double_def Let_def)

lemma ulp_inverse:
  assumes "e \<le> 52"
  shows "1 / pow2 (e - 52) = of_int (2 ^ nat (52 - e))"
proof -
  have "1 / pow2 (e - 52) = pow2 (0 - (e - 52))"
    by (simp add: pow2_diff pow2_def)
  also have "\<dots> = of_int (2 ^ nat (52 - e))"
    using assms by (simp add: pow2_nat)
  finally show ?thesis .
qed

lemma double_le_int:
  assumes "0 < q" and "exponent q \<le> 52" and "q \<le> of_int n"
  shows "double q \<le> of_int n"
proof -
  let ?u = "pow2 (exponent q - 52)" and ?m = "(2::int) ^ nat (52 - exponent q)"
  have u: "0 < ?u" by (rule pow2_pos)
  have inv: "1 / ?u = of_int ?m" by (rule ulp_inverse [OF assms(2)])
  have "q / ?u = q * (1 / ?u)" by simp
  also have "\<dots> = q * of_int ?m" by (simp only: inv)
  also have "\<dots> \<le> of_int n * of_int ?m"
    using assms(3) by (intro mult_right_mono) simp_all
  finally have "q / ?u \<le> of_int (n * ?m)" by simp
  then have "round_half_even (q / ?u) \<le> n * ?m" by (rule round_half_even_le)
  then have "(of_int (round_half_even (q / ?u)) :: rat) \<le> of_int (n * ?m)"
    by (simp only: of_int_le_iff)
  then have "of_int (round_half_even (q / ?u)) * ?u \<le> of_int (n * ?m) * ?u"
    using u by (intro mult_right_mono) simp_all
  also have "of_int (n * ?m) * ?u = of_int n"
    using inv u by (simp add: field_simps)
  finally show ?thesis
    by (simp add: double_pos_eq [OF assms(1)])
qed

lemma double_ge_int_ulp:
  assumes "0 < q" and "exponent q \<le> 52" and "of_int n + pow2 (exponent q - 53) < q"
  shows "of_int n + pow2 (exponent q - 52) \<le> double q"
proof -
  let ?u = "pow2 (exponent q - 52)" and ?m = "(2::int) ^ nat (52 - exponent q)"
  have u: "0 < ?u" by (rule pow2_pos)
  have inv: "1 / ?u = of_int ?m" by (rule ulp_inverse [OF assms(2)])
  have half: "pow2 (exponent q - 53) = ?u / 2"
    using pow2_diff [of "exponent q - 52" 1] by (simp add: pow2_def)
  have "(of_int n + ?u / 2) / ?u < q / ?u"
    using assms(3) u unfolding half by (intro divide_strict_right_mono) simp_all
  moreover have "(of_int n + ?u / 2) / ?u = of_int (n * ?m) + 1 / 2"
    using inv u by (simp add: field_simps)
  ultimately have "of_int (n * ?m) + 1 / 2 < q / ?u" by simp
  then have "n * ?m + 1 \<le> round_half_even (q / ?u)" by (rule round_half_even_gt)
  then have "(of_int (n * ?m + 1) :: rat) \<le> of_int (round_half_even (q / ?u))"
    by (simp only: of_int_le_iff)
  then have "of_int (n * ?m + 1) * ?u \<le> of_int (round_half_even (q / ?u)) * ?u"
    using u by (intro mult_right_mono) simp_all
  moreover have "of_int (n * ?m + 1) * ?u = of_int n + ?u"
    using inv u by (simp add: field_simps)
  ultimately show ?thesis
    by (simp add: double_pos_eq [OF assms(1)])
qed

lemma double_le_pow2:
  assumes "0 < q"
  shows "double q \<le> pow2 (exponent q + 1)"
proof -
  let ?u = "pow2 (exponent q - 52)"
  have u: "0 < ?u" by (rule pow2_pos)
  have p53: "pow2 53 = of_int (2 ^ 53)" by (simp add: pow2_def)
  have "q / ?u < pow2 (exponent q + 1) / ?u"
    using exponent_bounds [OF assms] u by (intro divide_strict_right_mono) simp_all
  also have "pow2 (exponent q + 1) / ?u = of_int (2 ^ 53)"
    using pow2_diff [of "exponent q + 1" "exponent q - 52"] p53 by simp
  finally have "round_half_even (q / ?u) \<le> 2 ^ 53"
    by (intro round_half_even_le) simp
  then have "(of_int (round_half_even (q / ?u)) :: rat) \<le> of_int (2 ^ 53)"
    by (simp only: of_int_le_iff)
  then have "of_int (round_half_even (q / ?u)) * ?u \<le> of_int (2 ^ 53) * ?u"
    using u by (intro mult_right_mono) simp_all
  also have "of_int (2 ^ 53) * ?u = pow2 (exponent q + 1)"
    using pow2_add [of 53 "exponent q - 52"] p53 by (simp add: algebra_simps)
  finally show ?thesis
    by (simp add: double_pos_eq [OF assms])
qed

subsection \<open>Elapsed times below \<open>2 ^ 34\<close> seconds\<close>

lemma billed_hours_exact:
  assumes "0 < d" and "d < 17179869184000000"
  shows "\<lceil>double (total_seconds d / 3600)\<rceil> = \<lceil>(of_int d :: rat) / 3600000000\<rceil>"
proof -
  define T :: rat where "T = of_int d / 1000000"
  define k where "k = \<lceil>(of_int d :: rat) / 3600000000\<rceil> - 1"
  define X where "X = double T"
  define Q where "Q = X / 3600"
  have T_pos: "0 < T" using assms(1) by (simp add: T_def)
  have "T < pow2 34" using assms(2) by (simp add: T_def pow2_def)
  then have eT: "exponent T \<le> 33" using exponent_less [OF T_pos, of 34] by simp
  \<comment> \<open>the elapsed time lies in the hour after \<open>k\<close> full hours\<close>
  have "of_int k < (of_int d :: rat) / 3600000000" "(of_int d :: rat) / 3600000000 \<le> of_int k + 1"
    unfolding k_def by linarith+
  then have "(of_int (3600000000 * k) :: rat) < of_int d"
      "(of_int d :: rat) \<le> of_int (3600000000 * (k + 1))"
    by (simp_all add: field_simps)
  then have dk: "3600000000 * k < d" "d \<le> 3600000000 * (k + 1)"
    by (simp_all only: of_int_less_iff of_int_le_iff)
  have k0: "0 \<le> k"
  proof (rule ccontr)
    assume "\<not> 0 \<le> k"
    then have "k + 1 \<le> 0" by simp
    then have "3600000000 * (k + 1) \<le> 0"
      by (simp add: mult_le_0_iff)
    with dk(2) assms(1) show False by simp
  qed
  have "3600000000 * k + 1 \<le> d"
    using dk(1) by simp
  then have "(of_int (3600000000 * k + 1) :: rat) \<le> of_int d"
    by (simp only: of_int_le_iff)
  then have T_lo: "of_int (3600 * k) + 1 / 1000000 \<le> T"
    by (simp add: T_def field_simps)
  have "(of_int d :: rat) \<le> of_int (3600000000 * (k + 1))"
    using dk(2) by (simp only: of_int_le_iff)
  then have T_hi: "T \<le> of_int (3600 * (k + 1))"
    by (simp add: T_def field_simps)
  \<comment> \<open>the seconds as a double\<close>
  have X_hi: "X \<le> of_int (3600 * (k + 1))"
    unfolding X_def using T_pos eT T_hi by (intro double_le_int) simp_all
  have "pow2 (exponent T - 53) \<le> pow2 (- 20)"
    using eT by (intro pow2_mono) simp
  also have "\<dots> < 1 / 1000000" by (simp add: pow2_def)
  finally have "of_int (3600 * k) + pow2 (exponent T - 53) < T"
    using T_lo by linarith
  then have X_lo: "of_int (3600 * k) + pow2 (exponent T - 52) \<le> X"
    unfolding X_def using T_pos eT by (intro double_ge_int_ulp) simp_all
  have X_top: "X \<le> pow2 (exponent T + 1)"
    unfolding X_def by (rule double_le_pow2 [OF T_pos])
  \<comment> \<open>the quotient by 3600, and its double\<close>
  have X_pos: "0 < X"
    using X_lo k0 pow2_pos [of "exponent T - 52"] by simp
  then have Q_pos: "0 < Q" by (simp add: Q_def)
  have Q_hi: "Q \<le> of_int (k + 1)"
    using X_hi by (simp add: Q_def field_simps)
  have "Q \<le> pow2 (exponent T + 1) / 3600"
    using X_top by (simp add: Q_def divide_right_mono)
  also have "\<dots> < pow2 (exponent T + 1) / pow2 11"
    using pow2_pos [of "exponent T + 1"] by (intro divide_strict_left_mono) (simp_all add: pow2_def)
  also have "\<dots> = pow2 (exponent T - 10)"
    using pow2_diff [of "exponent T + 1" 11] by simp
  finally have eQ: "exponent Q \<le> exponent T - 11"
    using exponent_less [OF Q_pos, of "exponent T - 10"] by simp
  then have eQ52: "exponent Q \<le> 52" using eT by simp
  have Y_hi: "double Q \<le> of_int (k + 1)"
    using Q_pos eQ52 Q_hi by (rule double_le_int)
  have "pow2 (exponent Q - 53) \<le> pow2 (exponent T - 64)"
    using eQ by (intro pow2_mono) simp
  also have "\<dots> = pow2 (exponent T - 52) / pow2 12"
    using pow2_diff [of "exponent T - 52" 12] by simp
  also have "\<dots> < pow2 (exponent T - 52) / 3600"
    using pow2_pos [of "exponent T - 52"] by (intro divide_strict_left_mono) (simp_all add: pow2_def)
  finally have "of_int k + pow2 (exponent Q - 53) < of_int k + pow2 (exponent T - 52) / 3600"
    by simp
  also have "\<dots> \<le> Q"
    using X_lo by (simp add: Q_def field_simps)
  finally have "of_int k + pow2 (exponent Q - 52) \<le> double Q"
    using Q_pos eQ52 by (intro double_ge_int_ulp)
  then have Y_lo: "of_int (k + 1) - 1 < double Q"
    using pow2_pos [of "exponent Q - 52"] by simp
  have "\<lceil>double Q\<rceil> = k + 1"
    using Y_lo Y_hi by (rule ceiling_unique)
  moreover have "total_seconds d / 3600 = Q"
    by (simp add: Q_def X_def T_def total_seconds_def)
  ultimately show ?thesis
    by (simp add: k_def)
qed

lemma calculate_cost_below_2_34:
  assumes "exit - entry < 17179869184000000"
  shows "fst (calculate_cost entry exit)
           = max 1 \<lceil>(of_int (exit - entry) / 1000000 :: rat) / 3600\<rceil>
         \<and> snd (calculate_cost entry exit) = fst (calculate_cost entry exit) * HOURLY_RATE"
proof (cases "0 < exit - entry")
  case True
  have "\<lceil>double (total_seconds (exit - entry) / 3600)\<rceil>
      = \<lceil>(of_int (exit - entry) :: rat) / 3600000000\<rceil>"
    using True assms by (rule billed_hours_exact)
  moreover have "(of_int (exit - entry) / 1000000 :: rat) / 3600 = of_int (exit - entry) / 3600000000"
    by simp
  ultimately have eq: "\<lceil>double (total_seconds (exit - entry) / 3600)\<rceil>
      = \<lceil>(of_int (exit - entry) / 1000000 :: rat) / 3600\<rceil>"
    by simp
  show ?thesis
    unfolding calculate_cost_def Let_def eq by (simp add: max_def)
next
  case False
  then have "exit \<le> entry" by simp
  moreover from False have "\<lceil>(of_int (exit - entry) / 1000000 :: rat) / 3600\<rceil> \<le> 0"
    by (simp add: ceiling_le_iff field_simps)
  ultimately show ?thesis
    by (simp add: calculate_cost_nonpositive max_def)
qed

subsection \<open>Elapsed times from \<open>2 ^ 34\<close> seconds on\<close>

text \<open>
  Claim C1. The claim is that for all entry and exit times the billed hours are the
  elapsed seconds divided by 3600 and rounded up, at least 1, and the cost the hours times
  \<open>HOURLY_RATE\<close>. The function bills at least one hour and charges the hours times
  \<open>HOURLY_RATE\<close> (\<open>calculate_cost_shape\<close>), it bills the three examples as the claim
  says (\<open>calculate_cost_examples\<close>), and it bills what the claim says whenever the exit
  is less than \<open>2 ^ 34\<close> seconds (some 544 years) after the entry, a zero or negative
  elapsed time included (\<open>calculate_cost_below_2_34\<close>). It does not round up every
  elapsed time, although its docstring says that the duration is rounded up to the next
  hour: the seconds are a double, and from \<open>2 ^ 34\<close> seconds on a double cannot hold a
  microsecond. A ticket entered on 2025-10-17 at 08:00 and left 5000000 hours and one
  microsecond later is billed 5000000 hours; rounded up, it is 5000001.
\<close>

theorem calculate_cost_drops_microsecond:
  "calculate_cost 1760662800000000 19760662800000001 = (5000000, 15000000000)
   \<and> max 1 \<lceil>(of_int (19760662800000001 - 1760662800000000) / 1000000 :: rat) / 3600\<rceil> = 5000001"
proof -
  have "calculate_cost 1760662800000000 19760662800000001 = (5000000, 15000000000)"
    by code_simp
  moreover have "max 1 \<lceil>(of_int (19760662800000001 - 1760662800000000) / 1000000 :: rat) / 3600\<rceil> = 5000001"
    by code_simp
  ultimately show ?thesis by simp
qed

section \<open>Slot assignment\<close>

lemma find_upto_Some:
  "List.find P [a..b] = Some i \<longleftrightarrow> a \<le> i \<and> i \<le> b \<and> P i \<and> (\<forall>j. a \<le> j \<and> j < i \<longrightarrow> \<not> P j)"
proof (induction a b rule: upto.induct)
  case (1 a b)
  show ?case
  proof (cases "a \<le> b")
    case False
    then show ?thesis by auto
  next
    case True
    then have unfold: "[a..b] = a # [a + 1..b]"
      by (simp add: upto_rec1)
    show ?thesis
    proof (cases "P a")
      case True
      with unfold \<open>a \<le> b\<close> show ?thesis
        by (auto simp: not_less)
    next
      case False
      have split: "\<And>j. a \<le> j \<longleftrightarrow> j = a \<or> a + 1 \<le> j" by auto
      have IH: "List.find P [a + 1..b] = Some i \<longleftrightarrow>
          a + 1 \<le> i \<and> i \<le> b \<and> P i \<and> (\<forall>j. a + 1 \<le> j \<and> j < i \<longrightarrow> \<not> P j)"
        using 1 \<open>a \<le> b\<close> by simp
      have "(a \<le> i \<and> i \<le> b \<and> P i \<and> (\<forall>j. a \<le> j \<and> j < i \<longrightarrow> \<not> P j)) \<longleftrightarrow>
            (a + 1 \<le> i \<and> i \<le> b \<and> P i \<and> (\<forall>j. a + 1 \<le> j \<and> j < i \<longrightarrow> \<not> P j))"
        using False split by (metis add1_zle_eq order_le_less)
      with IH unfold False show ?thesis by simp
    qed
  qed
qed

lemma find_upto_None:
  "List.find P [a..b] = None \<longleftrightarrow> (\<forall>j. a \<le> j \<and> j \<le> b \<longrightarrow> \<not> P j)"
  by (auto simp: find_None_iff)

text \<open>
  Claim C2. \<open>find_next_available_slot\<close> tries the slot numbers 1 to \<open>TOTAL_SLOTS\<close> in
  ascending order against the slot numbers of the active tickets: it returns \<open>Some i\<close>
  exactly for the least \<open>i\<close> in that range no active ticket holds, and \<open>None\<close>
  exactly when every number of the range is held.
\<close>

theorem find_next_available_slot_least:
  "used_slots s = slot_number ` snd ` set (active_tickets s)
   \<and> (find_next_available_slot s = Some i \<longleftrightarrow>
        1 \<le> i \<and> i \<le> TOTAL_SLOTS \<and> i \<notin> used_slots s
        \<and> (\<forall>j. 1 \<le> j \<and> j < i \<longrightarrow> j \<in> used_slots s))
   \<and> (find_next_available_slot s = None \<longleftrightarrow>
        (\<forall>j. 1 \<le> j \<and> j \<le> TOTAL_SLOTS \<longrightarrow> j \<in> used_slots s))"
proof -
  have "used_slots s = slot_number ` snd ` set (active_tickets s)"
    by (simp add: used_slots_def dict_values_def image_image)
  moreover have "find_next_available_slot s = Some i \<longleftrightarrow>
        1 \<le> i \<and> i \<le> TOTAL_SLOTS \<and> i \<notin> used_slots s
        \<and> (\<forall>j. 1 \<le> j \<and> j < i \<longrightarrow> j \<in> used_slots s)"
    unfolding find_next_available_slot_def by (simp add: find_upto_Some)
  moreover have "find_next_available_slot s = None \<longleftrightarrow>
        (\<forall>j. 1 \<le> j \<and> j \<le> TOTAL_SLOTS \<longrightarrow> j \<in> used_slots s)"
    unfolding find_next_available_slot_def by (simp add: find_upto_None)
  ultimately show ?thesis by blast
qed

theorem find_next_available_slot_witness:
  "find_next_available_slot gap_lot = Some 2 \<and> find_next_available_slot full_lot = None"
proof -
  have g: "used_slots gap_lot = {1, 3}" by code_simp
  have f: "used_slots full_lot = {1, 2, 3, 4, 5}" by code_simp
  have "\<forall>j::int. 1 \<le> j \<and> j < 2 \<longrightarrow> j \<in> used_slots gap_lot"
    unfolding g by auto
  moreover have "(2::int) \<notin> used_slots gap_lot"
    unfolding g by simp
  moreover have "\<forall>j::int. 1 \<le> j \<and> j \<le> TOTAL_SLOTS \<longrightarrow> j \<in> used_slots full_lot"
    unfolding f TOTAL_SLOTS_def by auto
  ultimately show ?thesis
    using find_next_available_slot_least [of gap_lot 2]
      find_next_available_slot_least [of full_lot 0]
    by (simp add: TOTAL_SLOTS_def)
qed

section \<open>Check-in\<close>

lemma latin1_examples:
  "strip latin1 [CHR 0xA0, CHR 0x85, CHR 0x20] = []
   \<and> strip latin1 (CHR 0xA0 # '' b 9'' @ [CHR 0x1F, CHR 0xA0]) = ''b 9''
   \<and> upper latin1 ''b 12aZ'' = ''B 12AZ''
   \<and> upper latin1 [CHR 0xE9, CHR 0xDF, CHR 0xF7, CHR 0xFE] = [CHR 0xC9] @ ''SS'' @ [CHR 0xF7, CHR 0xDE]"
  by code_simp

text \<open>
  Claim C3. When the counter is at or above \<open>TOTAL_SLOTS\<close>, a check-in (with a plate
  number that is present and not empty after stripping, which is the precondition of a
  check-in) is refused with the lot-full error, whatever the tickets are: the counter
  is read before any slot is looked for. The ledger is returned as it was, so no ticket
  is created.
\<close>

theorem create_entry_counter_full:
  assumes "occupied_slots_count s \<ge> TOTAL_SLOTS"
    and "field data ''plate_number'' = Some raw" and "strip P raw \<noteq> []"
  shows "create_entry P data now s = (Inl ParkingLotFull, s)"
  using assms by (simp add: create_entry_def Let_def)

theorem create_entry_counter_full_witness:
  "occupied_slots_count overcounted \<ge> TOTAL_SLOTS
   \<and> length (active_tickets overcounted) = 3
   \<and> create_entry latin1 (plate_body '' b 9 '') 1760680000000000 overcounted
       = (Inl ParkingLotFull, overcounted)"
proof -
  have c: "occupied_slots_count overcounted \<ge> TOTAL_SLOTS" by code_simp
  have l: "length (active_tickets overcounted) = 3" by code_simp
  have v: "field (plate_body '' b 9 '') ''plate_number'' = Some '' b 9 ''" by code_simp
  have n: "strip latin1 '' b 9 '' \<noteq> []" by code_simp
  show ?thesis
    using create_entry_counter_full [OF c v n, of 1760680000000000] c l
    by simp
qed

text \<open>
  Claim C4. When the counter is below \<open>TOTAL_SLOTS\<close> and still no slot is free, a
  check-in (with a plate number that is present and not empty after stripping, which
  is the precondition of a check-in) sets the counter to the number of active tickets
  and is refused with the state-desync variant of the lot-full error; the tickets and
  the sequence number are untouched.
\<close>

theorem create_entry_desync:
  assumes "occupied_slots_count s < TOTAL_SLOTS"
    and "find_next_available_slot s = None"
    and "field data ''plate_number'' = Some raw" and "strip P raw \<noteq> []"
  shows "create_entry P data now s =
           (Inl ParkingLotFullDesync,
            s\<lparr>occupied_slots_count := int (length (active_tickets s))\<rparr>)"
  using assms by (simp add: create_entry_def Let_def)

theorem create_entry_desync_witness:
  "occupied_slots_count desynced = 4
   \<and> fst (create_entry latin1 (plate_body ''B 9'') 1760680000000000 desynced) = Inl ParkingLotFullDesync
   \<and> occupied_slots_count (snd (create_entry latin1 (plate_body ''B 9'') 1760680000000000 desynced)) = 5
   \<and> active_tickets (snd (create_entry latin1 (plate_body ''B 9'') 1760680000000000 desynced))
       = active_tickets desynced"
proof -
  have c: "occupied_slots_count desynced < TOTAL_SLOTS" by code_simp
  have f: "find_next_available_slot desynced = None" by code_simp
  have v: "field (plate_body ''B 9'') ''plate_number'' = Some ''B 9''" by code_simp
  have n: "strip latin1 ''B 9'' \<noteq> []" by code_simp
  have o: "occupied_slots_count desynced = 4" by code_simp
  have l: "length (active_tickets desynced) = 5" by code_simp
  show ?thesis
    using create_entry_desync [OF c f v n, of 1760680000000000] o l by simp
qed

section \<open>Check-out\<close>

text \<open>
  Claim C5. A check-out whose ticket id, stripped and then uppercased by the string
  methods, whatever they are, is not a key of \<open>active_tickets\<close> is refused with the
  ticket-not-found error and returns the ledger unchanged: tickets, counter and
  sequence number.
\<close>

theorem create_exit_unknown:
  assumes "field data ''ticket_id'' = Some raw"
    and "map_of (active_tickets s) (upper P (strip P raw)) = None"
  shows "create_exit P data now s = (Inl TicketNotFound, s)"
  using assms by (simp add: create_exit_def Let_def)

theorem create_exit_unknown_witness:
  "create_exit latin1 (ticket_body '' t0009 '') 1760680000000000 seeded = (Inl TicketNotFound, seeded)
   \<and> create_exit latin1 (ticket_body (CHR 0xA0 # ''t0ooi'')) 1760680000000000 seeded
       = (Inl TicketNotFound, seeded)"
proof -
  have v: "field (ticket_body '' t0009 '') ''ticket_id'' = Some '' t0009 ''" by code_simp
  have m: "map_of (active_tickets seeded) (upper latin1 (strip latin1 '' t0009 '')) = None"
    by code_simp
  have v': "field (ticket_body (CHR 0xA0 # ''t0ooi'')) ''ticket_id'' = Some (CHR 0xA0 # ''t0ooi'')"
    by code_simp
  have m': "map_of (active_tickets seeded) (upper latin1 (strip latin1 (CHR 0xA0 # ''t0ooi''))) = None"
    by code_simp
  show ?thesis
    using create_exit_unknown [OF v m] create_exit_unknown [OF v' m'] by simp
qed

section \<open>Invariants of the ledger\<close>

subsection \<open>Tickets and slots under insertion and removal\<close>

lemma used_slots_update:
  "slot_number ` snd ` set (AList.update k v al) \<subseteq> insert (slot_number v) (slot_number ` snd ` set al)"
  by (induction al) auto

lemma distinct_slots_update:
  "distinct (map slot_number (map snd al)) \<Longrightarrow> slot_number v \<notin> slot_number ` snd ` set al
   \<Longrightarrow> distinct (map slot_number (map snd (AList.update k v al)))"
proof (induction al)
  case Nil
  then show ?case by simp
next
  case (Cons p al)
  show ?case
  proof (cases "fst p = k")
    case True
    with Cons.prems show ?thesis by auto
  next
    case False
    have "slot_number (snd p) \<notin> slot_number ` snd ` set al" "slot_number (snd p) \<noteq> slot_number v"
      using Cons.prems by auto
    then have "slot_number (snd p) \<notin> slot_number ` snd ` set (AList.update k v al)"
      using used_slots_update [of k v al] by blast
    moreover have "distinct (map slot_number (map snd (AList.update k v al)))"
      using Cons by simp
    ultimately show ?thesis
      using False by (simp add: image_image)
  qed
qed

lemma distinct_slots_delete:
  "distinct (map slot_number (map snd al)) \<Longrightarrow> distinct (map slot_number (map snd (AList.delete k al)))"
  by (induction al) (auto simp: AList.delete_eq)

lemma in_range_update:
  "list_all P (map snd al) \<Longrightarrow> P v \<Longrightarrow> list_all P (map snd (AList.update k v al))"
  by (induction al) auto

lemma in_range_delete:
  "list_all P (map snd al) \<Longrightarrow> list_all P (map snd (AList.delete k al))"
  by (induction al) (auto simp: AList.delete_eq)

lemma find_slot_Some:
  "find_next_available_slot s = Some i \<Longrightarrow> 1 \<le> i \<and> i \<le> TOTAL_SLOTS \<and> i \<notin> used_slots s"
  unfolding find_next_available_slot_def by (auto simp: find_Some_iff)

lemma tickets_at_most_slots:
  assumes "distinct_slots s" and "slots_in_range s"
  shows "int (length (active_tickets s)) \<le> TOTAL_SLOTS"
proof -
  let ?xs = "map slot_number (dict_values (active_tickets s))"
  have "set ?xs \<subseteq> {1..TOTAL_SLOTS}"
    using assms(2) by (auto simp: slots_in_range_def list_all_iff)
  then have "card (set ?xs) \<le> card {1..TOTAL_SLOTS}"
    by (intro card_mono) auto
  moreover have "card (set ?xs) = length ?xs"
    using assms(1) unfolding distinct_slots_def by (rule distinct_card)
  ultimately show ?thesis
    by (simp add: dict_values_def TOTAL_SLOTS_def)
qed

subsection \<open>The handlers, step by step\<close>

text \<open>What a check-in does, branch by branch.\<close>

lemma create_entry_ok:
  assumes "field data ''plate_number'' = Some raw" and "strip P raw \<noteq> []"
    and "occupied_slots_count s < TOTAL_SLOTS" and "find_next_available_slot s = Some slot"
  shows "create_entry P data now s =
     (Inr \<lparr>new_ticket =
              \<lparr>ticket_id = CHR ''T'' # format_04d (next_ticket_number s),
               plate_number = upper P (strip P raw), entry_time = now, slot_number = slot\<rparr>,
            available_slots_now = TOTAL_SLOTS - (occupied_slots_count s + 1)\<rparr>,
      \<lparr>active_tickets =
         AList.update (CHR ''T'' # format_04d (next_ticket_number s))
           \<lparr>ticket_id = CHR ''T'' # format_04d (next_ticket_number s),
            plate_number = upper P (strip P raw), entry_time = now, slot_number = slot\<rparr>
           (active_tickets s),
       occupied_slots_count = occupied_slots_count s + 1,
       next_ticket_number = next_ticket_number s + 1\<rparr>)"
  using assms by (simp add: create_entry_def generate_ticket_id_def Let_def)

lemma create_entry_InrD:
  assumes "create_entry P data now s = (Inr reply, s')"
  shows "\<exists>raw slot. field data ''plate_number'' = Some raw \<and> strip P raw \<noteq> []
           \<and> occupied_slots_count s < TOTAL_SLOTS \<and> find_next_available_slot s = Some slot"
  using assms
  by (auto simp: create_entry_def Let_def split: option.splits if_splits)

lemma create_entry_InlD:
  assumes "create_entry P data now s = (Inl e, s')"
  shows "(s' = s \<and> (e = PlateNumberRequired \<or> e = ParkingLotFull \<and> TOTAL_SLOTS \<le> occupied_slots_count s))
         \<or> (e = ParkingLotFullDesync \<and> occupied_slots_count s < TOTAL_SLOTS
              \<and> find_next_available_slot s = None
              \<and> s' = s\<lparr>occupied_slots_count := int (length (active_tickets s))\<rparr>)"
  using assms
  by (auto simp: create_entry_def generate_ticket_id_def Let_def split: option.splits if_splits prod.splits)

lemma create_entry_distinct_slots:
  assumes "distinct_slots s"
  shows "distinct_slots (snd (create_entry P data now s))"
proof (cases "create_entry P data now s")
  case (Pair r s')
  show ?thesis
  proof (cases r)
    case (Inl e)
    with Pair assms create_entry_InlD [of P data now s e s'] show ?thesis
      by (auto simp: distinct_slots_def)
  next
    case (Inr reply)
    with Pair obtain raw slot where *: "field data ''plate_number'' = Some raw" "strip P raw \<noteq> []"
        "occupied_slots_count s < TOTAL_SLOTS" "find_next_available_slot s = Some slot"
      using create_entry_InrD by blast
    have "slot \<notin> slot_number ` snd ` set (active_tickets s)"
      using find_slot_Some [OF *(4)] by (simp add: used_slots_def dict_values_def image_image)
    then have "distinct (map slot_number (map snd
        (AList.update (CHR ''T'' # format_04d (next_ticket_number s))
           \<lparr>ticket_id = CHR ''T'' # format_04d (next_ticket_number s),
            plate_number = upper P (strip P raw), entry_time = now, slot_number = slot\<rparr>
           (active_tickets s))))"
      using assms by (intro distinct_slots_update) (simp_all add: distinct_slots_def dict_values_def)
    then show ?thesis
      by (simp add: create_entry_ok [OF *] distinct_slots_def dict_values_def)
  qed
qed

lemma create_entry_slots_in_range:
  assumes "slots_in_range s"
  shows "slots_in_range (snd (create_entry P data now s))"
proof (cases "create_entry P data now s")
  case (Pair r s')
  show ?thesis
  proof (cases r)
    case (Inl e)
    with Pair assms create_entry_InlD [of P data now s e s'] show ?thesis
      by (auto simp: slots_in_range_def)
  next
    case (Inr reply)
    with Pair obtain raw slot where *: "field data ''plate_number'' = Some raw" "strip P raw \<noteq> []"
        "occupied_slots_count s < TOTAL_SLOTS" "find_next_available_slot s = Some slot"
      using create_entry_InrD by blast
    have "1 \<le> slot \<and> slot \<le> TOTAL_SLOTS"
      using find_slot_Some [OF *(4)] by simp
    with assms show ?thesis
      unfolding create_entry_ok [OF *] slots_in_range_def dict_values_def
      by (simp add: in_range_update)
  qed
qed

lemma create_entry_counter_ok:
  assumes "distinct_slots s" and "slots_in_range s" and "counter_ok s"
  shows "counter_ok (snd (create_entry P data now s))"
proof (cases "create_entry P data now s")
  case (Pair r s')
  show ?thesis
  proof (cases r)
    case (Inl e)
    with Pair assms(3) create_entry_InlD [of P data now s e s']
      tickets_at_most_slots [OF assms(1,2)] show ?thesis
      by (auto simp: counter_ok_def)
  next
    case (Inr reply)
    with Pair obtain raw slot where *: "field data ''plate_number'' = Some raw" "strip P raw \<noteq> []"
        "occupied_slots_count s < TOTAL_SLOTS" "find_next_available_slot s = Some slot"
      using create_entry_InrD by blast
    with assms(3) show ?thesis
      unfolding create_entry_ok [OF *] counter_ok_def by simp
  qed
qed

lemma create_exit_tickets:
  "active_tickets (snd (create_exit P data now s)) = active_tickets s
   \<or> (\<exists>k. active_tickets (snd (create_exit P data now s)) = AList.delete k (active_tickets s))"
  by (auto simp: create_exit_def Let_def split: option.splits prod.splits)

lemma create_exit_distinct_slots:
  "distinct_slots s \<Longrightarrow> distinct_slots (snd (create_exit P data now s))"
  using create_exit_tickets [of P data now s] distinct_slots_delete [of "active_tickets s"]
  by (auto simp: distinct_slots_def dict_values_def)

lemma create_exit_slots_in_range:
  "slots_in_range s \<Longrightarrow> slots_in_range (snd (create_exit P data now s))"
  using create_exit_tickets [of P data now s]
  by (auto simp: slots_in_range_def dict_values_def in_range_delete)

lemma create_exit_counter_ok:
  "counter_ok s \<Longrightarrow> counter_ok (snd (create_exit P data now s))"
  by (auto simp: create_exit_def counter_ok_def Let_def split: option.splits prod.splits)

lemma webhook_slot_minus_counter_ok:
  "counter_ok s \<Longrightarrow> counter_ok (snd (webhook_slot_minus s))"
  by (simp add: webhook_slot_minus_def counter_ok_def Let_def)

lemma webhook_slot_plus_counter_ok:
  "counter_ok s \<Longrightarrow> counter_ok (snd (webhook_slot_plus s))"
  by (simp add: webhook_slot_plus_def counter_ok_def Let_def)

lemma webhook_tickets:
  "active_tickets (snd (webhook_slot_minus s)) = active_tickets s"
  "active_tickets (snd (webhook_slot_plus s)) = active_tickets s"
  by (simp_all add: webhook_slot_minus_def webhook_slot_plus_def Let_def)

lemma distinct_slots_cong:
  "active_tickets s' = active_tickets s \<Longrightarrow> distinct_slots s' = distinct_slots s"
  by (simp add: distinct_slots_def)

lemma slots_in_range_cong:
  "active_tickets s' = active_tickets s \<Longrightarrow> slots_in_range s' = slots_in_range s"
  by (simp add: slots_in_range_def)

lemma handle_distinct_slots: "distinct_slots s \<Longrightarrow> distinct_slots (handle P r s)"
  by (cases r)
     (simp_all add: handle_def create_entry_distinct_slots create_exit_distinct_slots
        get_all_tickets_def webhook_tickets [THEN distinct_slots_cong])

lemma handle_slots_in_range: "slots_in_range s \<Longrightarrow> slots_in_range (handle P r s)"
  by (cases r)
     (simp_all add: handle_def create_entry_slots_in_range create_exit_slots_in_range
        get_all_tickets_def webhook_tickets [THEN slots_in_range_cong])

lemma handle_counter_ok:
  "distinct_slots s \<Longrightarrow> slots_in_range s \<Longrightarrow> counter_ok s \<Longrightarrow> counter_ok (handle P r s)"
  by (cases r)
     (simp_all add: handle_def create_entry_counter_ok create_exit_counter_ok
        get_all_tickets_def webhook_slot_minus_counter_ok webhook_slot_plus_counter_ok)

subsection \<open>The occupancy counter\<close>

lemma run_invariants:
  assumes "distinct_slots s" and "slots_in_range s" and "counter_ok s"
  shows "counter_ok (run P rs s) \<and> distinct_slots (run P rs s) \<and> slots_in_range (run P rs s)"
  using assms
proof (induction rs arbitrary: s)
  case Nil
  then show ?case by simp
next
  case (Cons r rs)
  have "counter_ok (handle P r s)" "distinct_slots (handle P r s)" "slots_in_range (handle P r s)"
    using Cons.prems
    by (simp_all add: handle_counter_ok handle_distinct_slots handle_slots_in_range)
  then show ?case
    using Cons.IH by simp
qed

lemma initial_invariants:
  "distinct_slots initial_ledger \<and> slots_in_range initial_ledger \<and> counter_ok initial_ledger"
  by (simp add: initial_ledger_def distinct_slots_def slots_in_range_def counter_ok_def
      dict_values_def TOTAL_SLOTS_def)

lemma seeded_invariants:
  "distinct_slots seeded \<and> slots_in_range seeded \<and> counter_ok seeded"
  by code_simp

text \<open>
  Claim C6. Start from a ledger whose active tickets hold pairwise distinct slot numbers
  between 1 and \<open>TOTAL_SLOTS\<close> (the data model's invariants) and whose counter lies
  between 0 and \<open>TOTAL_SLOTS\<close>. After any sequence of requests (status, check-in,
  check-out, listing, and the two webhooks, in any order) the counter still lies
  between 0 and \<open>TOTAL_SLOTS\<close>, and the tickets still satisfy their invariants. In
  particular this holds of every ledger reached from the freshly loaded module or from
  the seeded lot. The webhooks and the check-out keep the counter in range on their own
  (\<open>webhook_slot_minus_counter_ok\<close>, \<open>webhook_slot_plus_counter_ok\<close>,
  \<open>create_exit_counter_ok\<close>); the check-in increments only below \<open>TOTAL_SLOTS\<close>, and
  its resynchronisation writes the number of tickets, which the tickets' invariants
  bound by \<open>TOTAL_SLOTS\<close> (\<open>tickets_at_most_slots\<close>).
\<close>

theorem occupied_count_invariant:
  "(distinct_slots s \<and> slots_in_range s \<and> counter_ok s \<longrightarrow>
      counter_ok (run P rs s) \<and> distinct_slots (run P rs s) \<and> slots_in_range (run P rs s))
   \<and> counter_ok (run P rs initial_ledger)
   \<and> counter_ok (run P rs seeded)"
  using run_invariants [of s P rs] run_invariants [of initial_ledger P rs]
    run_invariants [of seeded P rs] initial_invariants seeded_invariants
  by blast

theorem occupied_count_invariant_witness:
  "distinct_slots desynced \<and> slots_in_range desynced \<and> counter_ok desynced
   \<and> counter_ok (run latin1 busy_day desynced)
   \<and> counter_ok (run latin1 busy_day seeded)
   \<and> occupied_slots_count (run latin1 [SlotPlus, SlotPlus, SlotPlus] seeded) = 5
   \<and> occupied_slots_count (run latin1 [SlotMinus, SlotMinus, SlotMinus, SlotMinus] seeded) = 0
   \<and> occupied_slots_count
         (run latin1 [Entry (plate_body ''B 9'') 1760680000000000] desynced) = 5"
proof -
  have d: "distinct_slots desynced" by code_simp
  have r: "slots_in_range desynced" by code_simp
  have c: "counter_ok desynced" by code_simp
  have 1: "occupied_slots_count (run latin1 [SlotPlus, SlotPlus, SlotPlus] seeded) = 5" by code_simp
  have 2: "occupied_slots_count (run latin1 [SlotMinus, SlotMinus, SlotMinus, SlotMinus] seeded) = 0"
    by code_simp
  have 3: "occupied_slots_count (run latin1 [Entry (plate_body ''B 9'') 1760680000000000] desynced) = 5"
    by code_simp
  show ?thesis
    using occupied_count_invariant [of desynced latin1 busy_day] d r c 1 2 3
    by simp
qed

subsection \<open>Slots of consecutive check-ins\<close>

lemma create_entry_new_ticket:
  assumes "create_entry P data now s = (Inr reply, s')"
  shows "1 \<le> slot_number (new_ticket reply) \<and> slot_number (new_ticket reply) \<le> TOTAL_SLOTS
         \<and> slot_number (new_ticket reply) \<notin> used_slots s
         \<and> map_of (active_tickets s') (ticket_id (new_ticket reply)) = Some (new_ticket reply)"
proof -
  obtain raw slot where *: "field data ''plate_number'' = Some raw" "strip P raw \<noteq> []"
      "occupied_slots_count s < TOTAL_SLOTS" "find_next_available_slot s = Some slot"
    using create_entry_InrD [OF assms] by blast
  show ?thesis
    using assms find_slot_Some [OF *(4)]
    unfolding create_entry_ok [OF *] by (auto simp: update_conv')
qed

text \<open>
  Claim C7. Start from a ledger whose active tickets hold pairwise distinct slot
  numbers and run any sequence of check-ins. After each of them the active tickets
  still hold pairwise distinct slot numbers, and each check-in that succeeds assigns a
  slot number between 1 and \<open>TOTAL_SLOTS\<close> to a ticket that is then active. (The
  sequence may have any length; check-ins beyond the capacity fail.)
\<close>

theorem check_ins_slots:
  assumes "distinct_slots s" and "(r, s') \<in> set (check_ins P reqs s)"
  shows "distinct_slots s'
         \<and> (case r of
               Inl e \<Rightarrow> True
             | Inr reply \<Rightarrow>
                 1 \<le> slot_number (new_ticket reply) \<and> slot_number (new_ticket reply) \<le> TOTAL_SLOTS
                 \<and> map_of (active_tickets s') (ticket_id (new_ticket reply)) = Some (new_ticket reply))"
  using assms
proof (induction reqs arbitrary: s)
  case Nil
  then show ?case by simp
next
  case (Cons q reqs)
  obtain data now where q: "q = (data, now)" by (cases q)
  obtain r1 s1 where step: "create_entry P data now s = (r1, s1)" by (cases "create_entry P data now s")
  have d1: "distinct_slots s1"
    using create_entry_distinct_slots [OF Cons.prems(1), of P data now] step by simp
  from Cons.prems(2) q step consider "(r, s') = (r1, s1)" | "(r, s') \<in> set (check_ins P reqs s1)"
    by auto
  then show ?case
  proof cases
    case 1
    with d1 step create_entry_new_ticket [of P data now s _ s1] show ?thesis
      by (auto split: sum.splits)
  next
    case 2
    with d1 Cons.IH show ?thesis by blast
  qed
qed

theorem check_ins_slots_witness:
  "distinct_slots gap_lot
   \<and> map (\<lambda>(r, s'). case r of Inl e \<Rightarrow> 0 | Inr reply \<Rightarrow> slot_number (new_ticket reply))
         (check_ins latin1 three_arrivals gap_lot) = [2, 4, 5]
   \<and> list_all (\<lambda>(r, s'). distinct_slots s') (check_ins latin1 three_arrivals gap_lot)"
proof -
  have d: "distinct_slots gap_lot" by code_simp
  have m: "map (\<lambda>(r, s'). case r of Inl e \<Rightarrow> 0 | Inr reply \<Rightarrow> slot_number (new_ticket reply))
         (check_ins latin1 three_arrivals gap_lot) = [2, 4, 5]" by code_simp
  have "list_all (\<lambda>(r, s'). distinct_slots s') (check_ins latin1 three_arrivals gap_lot)"
    unfolding list_all_iff using check_ins_slots [OF d, of _ _ latin1 three_arrivals] by auto
  with d m show ?thesis by simp
qed

section \<open>Listing\<close>

text \<open>
  Claim C8. For every ledger and every time \<open>now\<close>, \<open>get_all_tickets\<close> returns the ledger
  unchanged (tickets, counter, sequence number) and a list that holds one row for each
  active ticket, no more and no fewer (as multisets, the rows are the active tickets'
  rows), in ascending order of slot number. A ticket's row carries its id, plate and
  slot number and the hours and cost that \<open>calculate_cost\<close> gives for its entry time
  and \<open>now\<close>.
\<close>

theorem get_all_tickets_snapshot:
  "snd (get_all_tickets fmt now s) = s
   \<and> mset (fst (get_all_tickets fmt now s))
       = image_mset (ticket_row fmt now) (mset (dict_values (active_tickets s)))
   \<and> length (fst (get_all_tickets fmt now s)) = length (active_tickets s)
   \<and> sorted (map td_slot_number (fst (get_all_tickets fmt now s)))
   \<and> td_ticket_id (ticket_row fmt now t) = ticket_id t
   \<and> td_plate_number (ticket_row fmt now t) = plate_number t
   \<and> td_slot_number (ticket_row fmt now t) = slot_number t
   \<and> (current_duration_hours (ticket_row fmt now t), current_cost (ticket_row fmt now t))
       = calculate_cost (entry_time t) now"
proof -
  have "mset (fst (get_all_tickets fmt now s))
      = image_mset (ticket_row fmt now) (mset (dict_values (active_tickets s)))"
    by (simp add: get_all_tickets_def)
  moreover have "length (fst (get_all_tickets fmt now s)) = length (active_tickets s)"
    by (simp add: get_all_tickets_def dict_values_def)
  moreover have "sorted (map td_slot_number (fst (get_all_tickets fmt now s)))"
    by (simp add: get_all_tickets_def)
  moreover have "snd (get_all_tickets fmt now s) = s"
    by (simp add: get_all_tickets_def)
  ultimately show ?thesis
    by (simp add: ticket_row_def split: prod.splits)
qed

theorem get_all_tickets_witness:
  "map slot_number (dict_values (active_tickets
       (run latin1 [Entry (plate_body ''B 7 X'') 1760680000000000] gap_lot))) = [1, 3, 2]
   \<and> map td_ticket_id (fst (get_all_tickets (\<lambda>_. []) 1760690000000000
       (run latin1 [Entry (plate_body ''B 7 X'') 1760680000000000] gap_lot))) = [''T0001'', ''T0004'', ''T0003'']
   \<and> map current_cost (fst (get_all_tickets (\<lambda>_. []) 1760690000000000
       (run latin1 [Entry (plate_body ''B 7 X'') 1760680000000000] gap_lot))) = [24000, 9000, 18000]
   \<and> sorted (map td_slot_number (fst (get_all_tickets (\<lambda>_. []) 1760690000000000
       (run latin1 [Entry (plate_body ''B 7 X'') 1760680000000000] gap_lot))))
   \<and> snd (get_all_tickets (\<lambda>_. []) 1760690000000000
       (run latin1 [Entry (plate_body ''B 7 X'') 1760680000000000] gap_lot))
       = run latin1 [Entry (plate_body ''B 7 X'') 1760680000000000] gap_lot"
proof -
  let ?s = "run latin1 [Entry (plate_body ''B 7 X'') 1760680000000000] gap_lot"
  have a: "map slot_number (dict_values (active_tickets ?s)) = [1, 3, 2]" by code_simp
  have b: "map td_ticket_id (fst (get_all_tickets (\<lambda>_. []) 1760690000000000 ?s))
      = [''T0001'', ''T0004'', ''T0003'']" by code_simp
  have c: "map current_cost (fst (get_all_tickets (\<lambda>_. []) 1760690000000000 ?s))
      = [24000, 9000, 18000]" by code_simp
  show ?thesis
    using get_all_tickets_snapshot [of "\<lambda>_. []" 1760690000000000 ?s] a b c
    by simp
qed

section \<open>Ticket ids\<close>

subsection \<open>Formatting is injective\<close>

lemma digit_val_digit_char: "d < 10 \<Longrightarrow> digit_val (digit_char d) = d"
  by (simp add: digit_val_def digit_char_def)

lemma numeral_value_snoc: "numeral_value (ds @ [c]) = 10 * numeral_value ds + digit_val c"
  by (simp add: numeral_value_def)

lemma numeral_value_decimal: "numeral_value (decimal n) = n"
proof (induction n rule: decimal.induct)
  case (1 n)
  show ?case
  proof (cases "n < 10")
    case True
    then show ?thesis
      by (simp add: decimal.simps [of n] numeral_value_def digit_val_digit_char)
  next
    case False
    then have "numeral_value (decimal n) = 10 * (n div 10) + n mod 10"
      using 1 by (simp add: decimal.simps [of n] numeral_value_snoc digit_val_digit_char)
    then show ?thesis by simp
  qed
qed

lemma numeral_value_zeros: "numeral_value (replicate k (CHR ''0'') @ ds) = numeral_value ds"
proof -
  have "foldl (\<lambda>a c. 10 * a + digit_val c) 0 (replicate k (CHR ''0'')) = 0"
    by (induction k) (simp_all add: digit_val_def)
  then show ?thesis
    by (simp add: numeral_value_def)
qed

lemma numeral_value_zfill: "numeral_value (zfill w (decimal n)) = n"
  by (simp add: zfill_def numeral_value_zeros numeral_value_decimal)

lemma digit_char_not_minus: "d < 10 \<Longrightarrow> digit_char d \<noteq> CHR ''-''"
proof
  assume "d < 10" and "digit_char d = CHR ''-''"
  then have "(of_char (digit_char d) :: nat) = of_char (CHR ''-'')" by simp
  with \<open>d < 10\<close> show False by (simp add: digit_char_def)
qed

lemma decimal_no_minus: "CHR ''-'' \<notin> set (decimal n)"
proof (induction n rule: decimal.induct)
  case (1 n)
  show ?case
  proof (cases "n < 10")
    case True
    then show ?thesis
      using digit_char_not_minus [of n] by (auto simp: decimal.simps [of n])
  next
    case False
    then show ?thesis
      using 1 digit_char_not_minus [of "n mod 10"] by (auto simp: decimal.simps [of n])
  qed
qed

lemma zfill_no_minus: "CHR ''-'' \<notin> set (zfill w (decimal n))"
  using decimal_no_minus [of n] by (auto simp: zfill_def)

lemma format_04d_inj: "format_04d i = format_04d j \<Longrightarrow> i = j"
proof -
  assume eq: "format_04d i = format_04d j"
  consider "i < 0" "j < 0" | "0 \<le> i" "0 \<le> j" | "i < 0" "0 \<le> j" | "0 \<le> i" "j < 0"
    by linarith
  then show "i = j"
  proof cases
    case 1
    with eq have "zfill 3 (decimal (nat (- i))) = zfill 3 (decimal (nat (- j)))"
      by (simp add: format_04d_def)
    then have "numeral_value (zfill 3 (decimal (nat (- i)))) = numeral_value (zfill 3 (decimal (nat (- j))))"
      by simp
    with 1 show ?thesis by (simp add: numeral_value_zfill)
  next
    case 2
    with eq have "numeral_value (zfill 4 (decimal (nat i))) = numeral_value (zfill 4 (decimal (nat j)))"
      by (simp add: format_04d_def)
    with 2 show ?thesis by (simp add: numeral_value_zfill)
  next
    case 3
    with eq [symmetric] have "CHR ''-'' \<in> set (zfill 4 (decimal (nat j)))"
      by (simp add: format_04d_def)
    then show ?thesis using zfill_no_minus by blast
  next
    case 4
    with eq have "CHR ''-'' \<in> set (zfill 4 (decimal (nat i)))"
      by (simp add: format_04d_def)
    then show ?thesis using zfill_no_minus by blast
  qed
qed

lemma decimal_four_digits:
  assumes "m < 10000"
  shows "zfill 4 (decimal m) =
           [digit_char (m div 1000), digit_char (m div 100 mod 10),
            digit_char (m div 10 mod 10), digit_char (m mod 10)]"
proof -
  have z: "digit_char 0 = CHR ''0''" by code_simp
  have d1: "decimal k = [digit_char k]" if "k < 10" for k
    using that by (simp add: decimal.simps [of k])
  have d2: "decimal k = [digit_char (k div 10), digit_char (k mod 10)]" if "10 \<le> k" "k < 100" for k
    using that d1 [of "k div 10"] by (simp add: decimal.simps [of k])
  have d3: "decimal k = [digit_char (k div 100), digit_char (k div 10 mod 10), digit_char (k mod 10)]"
    if "100 \<le> k" "k < 1000" for k
    using that d2 [of "k div 10"] by (simp add: decimal.simps [of k] div_mult2_eq [symmetric])
  have d4: "decimal k = [digit_char (k div 1000), digit_char (k div 100 mod 10),
      digit_char (k div 10 mod 10), digit_char (k mod 10)]"
    if "1000 \<le> k" "k < 10000" for k
    using that d3 [of "k div 10"] by (simp add: decimal.simps [of k] div_mult2_eq [symmetric])
  consider "m < 10" | "10 \<le> m" "m < 100" | "100 \<le> m" "m < 1000" | "1000 \<le> m" "m < 10000"
    using assms by linarith
  then show ?thesis
  proof cases
    case 1
    then show ?thesis by (simp add: d1 zfill_def z numeral_3_eq_3)
  next
    case 2
    then show ?thesis by (simp add: d2 zfill_def z numeral_2_eq_2)
  next
    case 3
    then show ?thesis by (simp add: d3 zfill_def z)
  next
    case 4
    then show ?thesis by (simp add: d4 zfill_def z)
  qed
qed

subsection \<open>The sequence number under the handlers\<close>

lemma create_entry_next:
  "next_ticket_number (snd (create_entry P data now s)) =
     next_ticket_number s + (case fst (create_entry P data now s) of Inl e \<Rightarrow> 0 | Inr reply \<Rightarrow> 1)"
proof (cases "create_entry P data now s")
  case (Pair r s')
  show ?thesis
  proof (cases r)
    case (Inl e)
    with Pair create_entry_InlD [of P data now s e s'] show ?thesis by auto
  next
    case (Inr reply)
    with Pair obtain raw slot where *: "field data ''plate_number'' = Some raw" "strip P raw \<noteq> []"
        "occupied_slots_count s < TOTAL_SLOTS" "find_next_available_slot s = Some slot"
      using create_entry_InrD by blast
    show ?thesis
      by (simp add: create_entry_ok [OF *])
  qed
qed

lemma create_entry_ticket_id:
  assumes "fst (create_entry P data now s) = Inr reply"
  shows "ticket_id (new_ticket reply) = CHR ''T'' # format_04d (next_ticket_number s)"
proof -
  have "create_entry P data now s = (Inr reply, snd (create_entry P data now s))"
    using assms by (simp add: prod_eq_iff)
  then obtain raw slot where *: "field data ''plate_number'' = Some raw" "strip P raw \<noteq> []"
      "occupied_slots_count s < TOTAL_SLOTS" "find_next_available_slot s = Some slot"
    using create_entry_InrD by blast
  show ?thesis
    using assms by (auto simp: create_entry_ok [OF *])
qed

lemma create_exit_next:
  "next_ticket_number (snd (create_exit P data now s)) = next_ticket_number s"
  by (simp add: create_exit_def Let_def split: option.splits prod.splits)

lemma handle_next:
  "next_ticket_number (handle P r s) = next_ticket_number s + int (length (issued P [r] s))"
  by (cases r)
     (simp_all add: handle_def create_entry_next create_exit_next get_all_tickets_def
        webhook_slot_minus_def webhook_slot_plus_def Let_def split: sum.splits)

lemma issued_step:
  "issued P [r] s = [] \<or> issued P [r] s = [CHR ''T'' # format_04d (next_ticket_number s)]"
  by (cases r) (auto simp: create_entry_ticket_id split: sum.splits)

lemma run_next_mono: "next_ticket_number s \<le> next_ticket_number (run P rs s)"
proof (induction rs arbitrary: s)
  case Nil
  show ?case by simp
next
  case (Cons r rs)
  have "next_ticket_number s \<le> next_ticket_number (handle P r s)"
    by (simp add: handle_next)
  also have "\<dots> \<le> next_ticket_number (run P rs (handle P r s))"
    by (rule Cons.IH)
  finally show ?case by simp
qed

lemma issued_consecutive:
  "issued P rs s =
     map (\<lambda>i. CHR ''T'' # format_04d i) [next_ticket_number s..next_ticket_number (run P rs s) - 1]"
proof (induction rs arbitrary: s)
  case Nil
  show ?case by simp
next
  case (Cons r rs)
  let ?gen = "\<lambda>i. CHR ''T'' # format_04d i"
  let ?m = "next_ticket_number (run P rs (handle P r s))"
  have IH: "issued P rs (handle P r s) = map ?gen [next_ticket_number (handle P r s)..?m - 1]"
    by (rule Cons.IH)
  have split: "issued P (r # rs) s = issued P [r] s @ issued P rs (handle P r s)"
    by simp
  from issued_step [of P r s] show ?case
  proof
    assume none: "issued P [r] s = []"
    then have n: "next_ticket_number (handle P r s) = next_ticket_number s"
      by (simp add: handle_next)
    show ?thesis
      by (simp only: split none IH n run.simps append_Nil)
  next
    assume one: "issued P [r] s = [?gen (next_ticket_number s)]"
    then have n: "next_ticket_number (handle P r s) = next_ticket_number s + 1"
      by (simp add: handle_next)
    have "next_ticket_number s + 1 \<le> ?m"
      using run_next_mono [of "handle P r s" P rs] n by simp
    then have up: "[next_ticket_number s..?m - 1] =
        next_ticket_number s # [next_ticket_number s + 1..?m - 1]"
      by (simp add: upto_rec1)
    show ?thesis
      by (simp only: split one IH n up run.simps list.map append_Cons append_Nil)
  qed
qed

lemma issued_distinct: "distinct (issued P rs s)"
  unfolding issued_consecutive
  by (simp add: distinct_map inj_on_def format_04d_inj)

lemma issued_length:
  "next_ticket_number (run P rs s) = next_ticket_number s + int (length (issued P rs s))"
  using run_next_mono [of s P rs] by (simp add: issued_consecutive)

section \<open>Ticket ids over sequences of requests\<close>

lemma seeded_keys:
  "map fst (active_tickets seeded) = map (\<lambda>i. CHR ''T'' # format_04d i) [1..3]
   \<and> next_ticket_number seeded = 4"
  by code_simp

lemma seeded_ids_fresh: "distinct (map fst (active_tickets seeded) @ issued P rs seeded)"
proof -
  let ?gen = "\<lambda>i. CHR ''T'' # format_04d i"
  let ?m = "next_ticket_number (run P rs seeded)"
  have "map fst (active_tickets seeded) @ issued P rs seeded = map ?gen ([1..3] @ [4..?m - 1])"
    using seeded_keys by (simp add: issued_consecutive [of P rs seeded])
  moreover have "distinct (map ?gen ([1..3] @ [4..?m - 1]))"
    by (subst distinct_map) (auto simp: inj_on_def format_04d_inj)
  ultimately show ?thesis by simp
qed

text \<open>
  Claim C9. The sequence number is 1 when the module is loaded, so the first two ids
  are \<^verbatim>\<open>T0001\<close> and \<^verbatim>\<open>T0002\<close>. A sequence number from 0 to 9999 is formatted as
  exactly four decimal digits, and formatting never maps two numbers to one string. A
  check-in that succeeds gives its ticket the id \<^verbatim>\<open>T\<close> followed by the formatted current
  sequence number and increments the number. No request, check-out included, ever
  lowers it. Hence the ids handed out while any sequence of requests runs are pairwise
  distinct, and from the seeded lot they are also distinct from the seeded tickets' ids.
\<close>

theorem ticket_ids_sequential_unique:
  "next_ticket_number initial_ledger = 1
   \<and> fst (generate_ticket_id initial_ledger) = ''T0001''
   \<and> fst (generate_ticket_id (snd (generate_ticket_id initial_ledger))) = ''T0002''
   \<and> (0 \<le> n \<and> n < 10000 \<longrightarrow>
        format_04d n = [digit_char (nat n div 1000), digit_char (nat n div 100 mod 10),
                        digit_char (nat n div 10 mod 10), digit_char (nat n mod 10)])
   \<and> (format_04d i = format_04d j \<longrightarrow> i = j)
   \<and> (fst (create_entry P data now s) = Inr reply \<longrightarrow>
        ticket_id (new_ticket reply) = CHR ''T'' # format_04d (next_ticket_number s)
        \<and> next_ticket_number (snd (create_entry P data now s)) = next_ticket_number s + 1)
   \<and> next_ticket_number s \<le> next_ticket_number (run P rs s)
   \<and> distinct (issued P rs s)
   \<and> distinct (map fst (active_tickets seeded) @ issued P rs seeded)"
proof -
  have a: "next_ticket_number initial_ledger = 1" by (simp add: initial_ledger_def)
  have b: "fst (generate_ticket_id initial_ledger) = ''T0001''" by code_simp
  have c: "fst (generate_ticket_id (snd (generate_ticket_id initial_ledger))) = ''T0002''"
    by code_simp
  have d: "0 \<le> n \<and> n < 10000 \<longrightarrow>
        format_04d n = [digit_char (nat n div 1000), digit_char (nat n div 100 mod 10),
                        digit_char (nat n div 10 mod 10), digit_char (nat n mod 10)]"
    using decimal_four_digits [of "nat n"] by (auto simp: format_04d_def)
  have e: "format_04d i = format_04d j \<longrightarrow> i = j"
    using format_04d_inj by blast
  have f: "fst (create_entry P data now s) = Inr reply \<longrightarrow>
        ticket_id (new_ticket reply) = CHR ''T'' # format_04d (next_ticket_number s)
        \<and> next_ticket_number (snd (create_entry P data now s)) = next_ticket_number s + 1"
    using create_entry_ticket_id [of P data now s reply] create_entry_next [of P data now s]
    by simp
  from a b c d e f run_next_mono [of s P rs] issued_distinct [of P rs s] seeded_ids_fresh [of P rs]
  show ?thesis by blast
qed

theorem ticket_ids_witness:
  "format_04d 7 = ''0007''
   \<and> issued latin1 busy_day seeded = [''T0004'', ''T0005'']
   \<and> distinct (issued latin1 busy_day seeded)
   \<and> next_ticket_number (run latin1 busy_day seeded) = 6
   \<and> ticket_id (new_ticket (projr (fst (create_entry latin1 (plate_body ''B 7'') 1760680000000000 seeded))))
       = ''T0004''"
proof -
  have a: "issued latin1 busy_day seeded = [''T0004'', ''T0005'']" by code_simp
  have b: "next_ticket_number (run latin1 busy_day seeded) = 6" by code_simp
  have c: "fst (create_entry latin1 (plate_body ''B 7'') 1760680000000000 seeded) =
      Inr (projr (fst (create_entry latin1 (plate_body ''B 7'') 1760680000000000 seeded)))"
    by code_simp
  have d: "CHR ''T'' # format_04d (next_ticket_number seeded) = ''T0004''" by code_simp
  have e: "[digit_char (nat 7 div 1000), digit_char (nat 7 div 100 mod 10),
            digit_char (nat 7 div 10 mod 10), digit_char (nat 7 mod 10)] = ''0007''"
    by code_simp
  show ?thesis
    using ticket_ids_sequential_unique [of 7 0 0 latin1 "plate_body ''B 7''" 1760680000000000 seeded
        "projr (fst (create_entry latin1 (plate_body ''B 7'') 1760680000000000 seeded))" busy_day]
      a b c d e
    by simp
qed

text \<open>
  Claim C10. A check-in that fails, which it does with the validation error, the
  lot-full error or its state-desync variant, leaves the active tickets and the
  sequence number as they were; a check-in whose plate number is missing or empty after
  stripping is among them, and leaves the whole ledger as it was. So the ids handed out
  while any sequence of requests runs, failed check-ins among them, are the formatted
  consecutive numbers from the sequence number at the start on, and the sequence number
  advances by exactly the number of ids handed out.
\<close>

theorem failed_check_in_consumes_nothing:
  "(fst (create_entry P data now s) = Inl e \<longrightarrow>
      active_tickets (snd (create_entry P data now s)) = active_tickets s
      \<and> next_ticket_number (snd (create_entry P data now s)) = next_ticket_number s
      \<and> (e = PlateNumberRequired \<or> e = ParkingLotFull \<or> e = ParkingLotFullDesync))
   \<and> ((case field data ''plate_number'' of None \<Rightarrow> True | Some raw \<Rightarrow> strip P raw = []) \<longrightarrow>
        create_entry P data now s = (Inl PlateNumberRequired, s))
   \<and> issued P rs s =
       map (\<lambda>i. CHR ''T'' # format_04d i) [next_ticket_number s..next_ticket_number (run P rs s) - 1]
   \<and> next_ticket_number (run P rs s) = next_ticket_number s + int (length (issued P rs s))"
proof -
  have "active_tickets (snd (create_entry P data now s)) = active_tickets s
      \<and> next_ticket_number (snd (create_entry P data now s)) = next_ticket_number s
      \<and> (e = PlateNumberRequired \<or> e = ParkingLotFull \<or> e = ParkingLotFullDesync)"
    if "fst (create_entry P data now s) = Inl e"
  proof -
    from that have "create_entry P data now s = (Inl e, snd (create_entry P data now s))"
      by (simp add: prod_eq_iff)
    from create_entry_InlD [OF this] show ?thesis by auto
  qed
  moreover have "create_entry P data now s = (Inl PlateNumberRequired, s)"
    if "case field data ''plate_number'' of None \<Rightarrow> True | Some raw \<Rightarrow> strip P raw = []"
    using that by (cases "field data ''plate_number''") (simp_all add: create_entry_def)
  ultimately show ?thesis
    using issued_consecutive [of P rs s] issued_length [of P rs s] by blast
qed

theorem failed_check_in_witness:
  "fst (create_entry latin1 (plate_body ''B 9'') 1760680000000000 desynced) = Inl ParkingLotFullDesync
   \<and> active_tickets (snd (create_entry latin1 (plate_body ''B 9'') 1760680000000000 desynced))
       = active_tickets desynced
   \<and> next_ticket_number (snd (create_entry latin1 (plate_body ''B 9'') 1760680000000000 desynced))
       = next_ticket_number desynced
   \<and> create_entry latin1 (plate_body [CHR 0xA0]) 1760680000000000 seeded
       = (Inl PlateNumberRequired, seeded)
   \<and> issued latin1 failures_between seeded = [''T0004'', ''T0005'', ''T0006'']
   \<and> next_ticket_number (run latin1 failures_between seeded) = 7"
proof -
  have a: "fst (create_entry latin1 (plate_body ''B 9'') 1760680000000000 desynced) = Inl ParkingLotFullDesync"
    by code_simp
  have b: "issued latin1 failures_between seeded = [''T0004'', ''T0005'', ''T0006'']" by code_simp
  have c: "next_ticket_number seeded = 4" by code_simp
  have d: "case field (plate_body [CHR 0xA0]) ''plate_number'' of
             None \<Rightarrow> True | Some raw \<Rightarrow> strip latin1 raw = []"
    by code_simp
  show ?thesis
    using failed_check_in_consumes_nothing
        [of latin1 "plate_body ''B 9''" 1760680000000000 desynced ParkingLotFullDesync failures_between]
      failed_check_in_consumes_nothing
        [of latin1 "plate_body [CHR 0xA0]" 1760680000000000 seeded PlateNumberRequired failures_between]
      a b c d
    by simp
qed

end
